theory Spec2Isabelle
  imports Complex_Main "HOL-Library.Word"
begin

section \<open>Numbers\<close>

text \<open>
  A JavaScript number (IEEE 754 double precision) or a cell of a \<^verbatim>\<open>Float32Array\<close> or of a
  GPU buffer (single precision): a finite value, given by the real number it denotes, or
  \<open>NonFinite\<close> for \<^verbatim>\<open>NaN\<close>, \<^verbatim>\<open>Infinity\<close> and \<^verbatim>\<open>-Infinity\<close>, which the script never tells
  apart. The sign of zero is not kept.
\<close>

datatype ieee = Fin real | NonFinite

text \<open>Rounding a real to the nearest integer, a tie to the even one.\<close>

definition roundHalfEven :: "real \<Rightarrow> int" where
  "roundHalfEven q =
     (let f = \<lfloor>q\<rfloor>
      in if q - of_int f < 1 / 2 then f
         else if 1 / 2 < q - of_int f then f + 1
         else if even f then f else f + 1)"

text \<open>
  The binade of a positive real \<open>a\<close>: the exponent \<open>e\<close> with \<open>2 powi e \<le> a < 2 powi (e + 1)\<close>,
  found by halving or doubling, and kept between \<open>emin\<close> (below it the spacing of the
  format no longer shrinks) and \<open>emax + 1\<close> (from there on every value overflows).
\<close>

fun halvings :: "nat \<Rightarrow> real \<Rightarrow> nat" where
  "halvings 0 a = 0"
| "halvings (Suc k) a = (if a < 2 then 0 else Suc (halvings k (a / 2)))"

fun doublings :: "nat \<Rightarrow> real \<Rightarrow> nat" where
  "doublings 0 a = 0"
| "doublings (Suc k) a = (if 1 \<le> a then 0 else Suc (doublings k (2 * a)))"

definition binade :: "nat \<Rightarrow> int \<Rightarrow> real \<Rightarrow> int" where
  "binade emax emin a =
     (if 1 \<le> a then int (halvings (emax + 1) a) else - int (doublings (nat (- emin)) a))"

text \<open>
  Rounding a real to the binary format with \<open>p\<close> significant bits and exponents from \<open>emin\<close>
  to \<open>emax\<close>, to nearest and ties to even: the value is rounded to a multiple of the
  spacing of its binade, and a result of \<open>2 ^ (emax + 1)\<close> or more is an infinity.
\<close>

definition roundTo :: "nat \<Rightarrow> nat \<Rightarrow> int \<Rightarrow> real \<Rightarrow> ieee" where
  "roundTo p emax emin x =
     (if x = 0 then Fin 0
      else let a = \<bar>x\<bar>;
               u = 2 powi (binade emax emin a - (int p - 1));
               r = of_int (roundHalfEven (a / u)) * u
           in if 2 ^ (emax + 1) \<le> r then NonFinite else Fin (sgn x * r))"

definition round64 :: "real \<Rightarrow> ieee" where
  "round64 = roundTo 53 1023 (- 1022)"

definition round32 :: "real \<Rightarrow> ieee" where
  "round32 = roundTo 24 127 (- 126)"

text \<open>
  The arithmetic of \<^verbatim>\<open>addVertex\<close>: each operation gives the exact result rounded to double
  precision. The divisor is the width or height of the canvas, a finite number; dividing
  by zero gives \<^verbatim>\<open>NaN\<close> or an infinity.
\<close>

fun jsmul :: "ieee \<Rightarrow> ieee \<Rightarrow> ieee" where
  "jsmul (Fin a) (Fin b) = round64 (a * b)"
| "jsmul a b = NonFinite"

fun jsdiv :: "ieee \<Rightarrow> real \<Rightarrow> ieee" where
  "jsdiv (Fin a) b = (if b = 0 then NonFinite else round64 (a / b))"
| "jsdiv NonFinite b = NonFinite"

fun jsminus :: "ieee \<Rightarrow> ieee \<Rightarrow> ieee" where
  "jsminus (Fin a) (Fin b) = round64 (a - b)"
| "jsminus a b = NonFinite"

text \<open>The conversion of a number to single precision, as a \<^verbatim>\<open>Float32Array\<close> stores it.\<close>

fun fround :: "ieee \<Rightarrow> ieee" where
  "fround (Fin r) = round32 r"
| "fround NonFinite = NonFinite"

section \<open>Values\<close>

text \<open>
  Modelled from the spec: the option values of the \<^verbatim>\<open>#draw-mode\<close> control. The page markup
  that declares them is not part of \<^verbatim>\<open>vector-drawing.js\<close>; the script only reads
  \<^verbatim>\<open>mode.value\<close> and later looks the value up as a property of the WebGL context.
\<close>

datatype PrimitiveMode =
  POINTS | LINE_STRIP | LINE_LOOP | LINES | TRIANGLE_STRIP | TRIANGLE_FAN | TRIANGLES

text \<open>
  The JavaScript values that occur as property values of the entries of \<^verbatim>\<open>drawingHistory\<close>:
  numbers, \<^verbatim>\<open>null\<close> (what \<^verbatim>\<open>JSON.stringify\<close> writes for a non-finite number) and the
  mode strings. In the tree of a file, \<open>JNum r\<close> is a number that \<^verbatim>\<open>JSON.parse\<close> reads as the
  double \<open>r\<close>; \<^verbatim>\<open>JSON.stringify\<close> writes a finite double so that it is read back as itself.
\<close>

datatype jsval = JNum real | JNonFinite | JNull | JStr PrimitiveMode

text \<open>
  An entry of the array \<^verbatim>\<open>drawingHistory\<close>: an object \<^verbatim>\<open>{mode, vertLength}\<close>, a
  \<^verbatim>\<open>Float32Array\<close> (pushed by \<^verbatim>\<open>downloadDrawing\<close>), or a plain object with numeric keys
  (what \<^verbatim>\<open>JSON.parse\<close> makes of a stringified \<^verbatim>\<open>Float32Array\<close>), given by its values in
  the order of \<^verbatim>\<open>Object.values\<close>.
\<close>

datatype entry = Run PrimitiveMode nat | Float32Array "ieee list" | Object "jsval list"

text \<open>
  The parse tree of a snapshot file: a top-level list whose elements are run records
  \<^verbatim>\<open>{"mode": m, "vertLength": n}\<close> or objects \<^verbatim>\<open>{"0": v0, "1": v1, ...}\<close> of numbers and
  nulls. The text itself is not modelled: printing a tree and parsing the text gives the
  tree back. Files of another shape are outside the model: a text that is no JSON, a
  top-level value that is no list, and entries such as \<^verbatim>\<open>null\<close>, on which the property
  access in \<^verbatim>\<open>render\<close> throws.
\<close>

datatype json = JRun PrimitiveMode nat | JObject "jsval list"

text \<open>A JavaScript number that is a natural number or \<^verbatim>\<open>NaN\<close> (the running draw offset).\<close>

datatype jsnumber = N nat | NaN

datatype js_error = TypeError

datatype bufname = PosBuffer | ColorBuffer

text \<open>
  A call that reaches the drawing surface: \<^verbatim>\<open>gl.clear\<close>, or
  \<^verbatim>\<open>gl.drawArrays(gl[k], first, count)\<close> with the key \<open>k\<close> that was looked up on the context
  (\<open>None\<close> is \<^verbatim>\<open>undefined\<close>), the start offset and the count (\<open>None\<close> is \<^verbatim>\<open>undefined\<close>).
\<close>

datatype glcall = Clear | DrawArrays "PrimitiveMode option" jsnumber "nat option"

text \<open>
  \<^verbatim>\<open>Float32Array.from\<close>: each element is converted to a number (\<^verbatim>\<open>null\<close> becomes 0, a mode
  string becomes \<^verbatim>\<open>NaN\<close>) and the number to single precision.
\<close>

fun toNumber :: "jsval \<Rightarrow> ieee" where
  "toNumber (JNum r) = Fin r"
| "toNumber JNonFinite = NonFinite"
| "toNumber JNull = Fin 0"
| "toNumber (JStr m) = NonFinite"

definition toFloat32 :: "jsval \<Rightarrow> ieee" where
  "toFloat32 v = fround (toNumber v)"

definition Float32Array_from :: "jsval list \<Rightarrow> ieee list" where
  "Float32Array_from vs = map toFloat32 vs"

text \<open>A number as a JavaScript value.\<close>

fun numberValue :: "ieee \<Rightarrow> jsval" where
  "numberValue (Fin r) = JNum r"
| "numberValue NonFinite = JNonFinite"

section \<open>The program state\<close>

text \<open>
  The global \<^verbatim>\<open>drawingHistory\<close> and the fields of the global context \<^verbatim>\<open>gl\<close> that the
  handlers use. A buffer is indexed by float cell; its size in bytes is fixed by
  \<^verbatim>\<open>initBuffers\<close>. \<open>glCalls\<close> is the log of the calls issued to the surface.
\<close>

record state =
  drawingHistory :: "entry list"
  currentCoordByteOffset :: nat
  currentColorByteOffset :: nat
  drawingMode :: PrimitiveMode
  drawingColor :: "ieee \<times> ieee \<times> ieee"
  posBuffer :: "nat \<Rightarrow> ieee"
  colorBuffer :: "nat \<Rightarrow> ieee"
  arrayBufferBinding :: "bufname option"
  vertexArrayBinding :: bool
  glCalls :: "glcall list"

definition BYTES_PER_ELEMENT :: nat where
  "BYTES_PER_ELEMENT = 4"

definition MAX_VERTICES :: nat where
  "MAX_VERTICES = 100000"

definition posBufferBytes :: nat where
  "posBufferBytes = 100000 * 2 * BYTES_PER_ELEMENT"

definition colorBufferBytes :: nat where
  "colorBufferBytes = 100000 * 3 * BYTES_PER_ELEMENT"

section \<open>The WebGL calls\<close>

definition bindBuffer :: "bufname option \<Rightarrow> state \<Rightarrow> state" where
  "bindBuffer b s = s\<lparr>arrayBufferBinding := b\<rparr>"

definition bindVertexArray :: "bool \<Rightarrow> state \<Rightarrow> state" where
  "bindVertexArray v s = s\<lparr>vertexArrayBinding := v\<rparr>"

definition clear :: "state \<Rightarrow> state" where
  "clear s = s\<lparr>glCalls := glCalls s @ [Clear]\<rparr>"

definition drawArrays :: "PrimitiveMode option \<Rightarrow> jsnumber \<Rightarrow> nat option \<Rightarrow> state \<Rightarrow> state" where
  "drawArrays k first count s = s\<lparr>glCalls := glCalls s @ [DrawArrays k first count]\<rparr>"

text \<open>
  Writing \<open>src\<close> into a buffer of \<open>byteLength\<close> bytes at a byte offset. A write that does not fit
  raises the WebGL error \<^verbatim>\<open>INVALID_VALUE\<close>, which is no exception, and writes nothing.
  The handlers only ever pass offsets that are multiples of 4.
\<close>

definition writeCells :: "nat \<Rightarrow> (nat \<Rightarrow> ieee) \<Rightarrow> nat \<Rightarrow> ieee list \<Rightarrow> (nat \<Rightarrow> ieee)" where
  "writeCells byteLength buf dstByteOffset src =
     (if dstByteOffset + BYTES_PER_ELEMENT * length src > byteLength then buf
      else (\<lambda>i. if dstByteOffset div BYTES_PER_ELEMENT \<le> i
                    \<and> i < dstByteOffset div BYTES_PER_ELEMENT + length src
                 then src ! (i - dstByteOffset div BYTES_PER_ELEMENT) else buf i))"

definition bufferSubData :: "nat \<Rightarrow> ieee list \<Rightarrow> state \<Rightarrow> state" where
  "bufferSubData dstByteOffset src s =
     (case arrayBufferBinding s of
        None \<Rightarrow> s
      | Some PosBuffer \<Rightarrow> s\<lparr>posBuffer := writeCells posBufferBytes (posBuffer s) dstByteOffset src\<rparr>
      | Some ColorBuffer \<Rightarrow>
          s\<lparr>colorBuffer := writeCells colorBufferBytes (colorBuffer s) dstByteOffset src\<rparr>)"

text \<open>
  Reading from byte 0 of a buffer of \<open>byteLength\<close> bytes into the array \<open>dst\<close>. A read past the
  end raises \<^verbatim>\<open>INVALID_VALUE\<close> and leaves \<open>dst\<close> as it is.
\<close>

definition readCells :: "nat \<Rightarrow> (nat \<Rightarrow> ieee) \<Rightarrow> ieee list \<Rightarrow> ieee list" where
  "readCells byteLength buf dst =
     (if BYTES_PER_ELEMENT * length dst > byteLength then dst else map buf [0..<length dst])"

definition getBufferSubData :: "ieee list \<Rightarrow> state \<Rightarrow> ieee list" where
  "getBufferSubData dst s =
     (case arrayBufferBinding s of
        None \<Rightarrow> dst
      | Some PosBuffer \<Rightarrow> readCells posBufferBytes (posBuffer s) dst
      | Some ColorBuffer \<Rightarrow> readCells colorBufferBytes (colorBuffer s) dst)"

section \<open>render\<close>

text \<open>The properties \<^verbatim>\<open>mode\<close> and \<^verbatim>\<open>vertLength\<close> of an entry; \<open>None\<close> is \<^verbatim>\<open>undefined\<close>.\<close>

fun mode :: "entry \<Rightarrow> PrimitiveMode option" where
  "mode (Run m n) = Some m"
| "mode (Float32Array fs) = None"
| "mode (Object vs) = None"

fun vertLength :: "entry \<Rightarrow> nat option" where
  "vertLength (Run m n) = Some n"
| "vertLength (Float32Array fs) = None"
| "vertLength (Object vs) = None"

text \<open>\<^verbatim>\<open>start += len\<close>: adding \<^verbatim>\<open>undefined\<close>, or adding to \<^verbatim>\<open>NaN\<close>, gives \<^verbatim>\<open>NaN\<close>.\<close>

fun jsplus :: "jsnumber \<Rightarrow> nat option \<Rightarrow> jsnumber" where
  "jsplus (N a) (Some b) = N (a + b)"
| "jsplus (N a) None = NaN"
| "jsplus NaN b = NaN"

text \<open>The callback of \<^verbatim>\<open>drawingHistory.forEach\<close>, with its captured variable made explicit.\<close>

definition drawEntry :: "state \<times> jsnumber \<Rightarrow> entry \<Rightarrow> state \<times> jsnumber" where
  "drawEntry = (\<lambda>(s, startingIndexPerMode) e.
     (drawArrays (mode e) startingIndexPerMode (vertLength e) s,
      jsplus startingIndexPerMode (vertLength e)))"

text \<open>
  \<^verbatim>\<open>let startingIndexPerMode = 0; drawingHistory.forEach(...)\<close>: the state after the loop
  and the final value of the variable.
\<close>

definition drawHistory :: "state \<Rightarrow> state \<times> jsnumber" where
  "drawHistory s = foldl drawEntry (s, N 0) (drawingHistory s)"

definition render :: "state \<Rightarrow> state" where
  "render s =
     (let s1 = clear s;
          s2 = bindVertexArray True s1;
          (s3, startingIndexPerMode) = drawHistory s2
      in bindVertexArray False s3)"

section \<open>addVertex\<close>

text \<open>
  What \<^verbatim>\<open>addVertex\<close> reads of a click: the position in the canvas, two doubles, and the
  width and height of the canvas, which the page delivers as 32-bit signed integers.
\<close>

record click =
  offsetX :: real
  offsetY :: real
  offsetWidth :: "32 word"
  offsetHeight :: "32 word"

text \<open>\<^verbatim>\<open>[(2 * x) / w - 1, 1 - (2 * y) / h]\<close>, in double precision.\<close>

definition clipCoords :: "click \<Rightarrow> ieee list" where
  "clipCoords e =
     (let x = Fin (offsetX e); y = Fin (offsetY e);
          w = real_of_int (sint (offsetWidth e)); h = real_of_int (sint (offsetHeight e))
      in [jsminus (jsdiv (jsmul (Fin 2) x) w) (Fin 1),
          jsminus (Fin 1) (jsdiv (jsmul (Fin 2) y) h)])"

text \<open>
  \<^verbatim>\<open>drawingHistory[drawingHistory.length - 1].vertLength += 1\<close>. In \<^verbatim>\<open>addVertex\<close> the last
  entry is a run record whenever this statement is reached.
\<close>

fun incrVertLength :: "entry \<Rightarrow> entry" where
  "incrVertLength (Run m n) = Run m (n + 1)"
| "incrVertLength e = e"

definition recordVertex :: "PrimitiveMode \<Rightarrow> entry list \<Rightarrow> entry list" where
  "recordVertex m h =
     (let h1 = (if length h = 0 \<or> Some m \<noteq> mode (h ! (length h - 1))
                then h @ [Run m 0] else h)
      in h1[length h1 - 1 := incrVertLength (h1 ! (length h1 - 1))])"

definition addVertex :: "click \<Rightarrow> state \<Rightarrow> state" where
  "addVertex e s =
     (let xy = clipCoords e;
          s1 = s\<lparr>drawingHistory := recordVertex (drawingMode s) (drawingHistory s)\<rparr>;
          s2 = bindBuffer (Some PosBuffer) s1;
          s3 = bufferSubData (currentCoordByteOffset s2)
                 (Float32Array_from (map numberValue xy)) s2;
          s4 = bindBuffer (Some ColorBuffer) s3;
          s5 = bufferSubData (currentColorByteOffset s4)
                 (Float32Array_from
                    (map numberValue (case drawingColor s4 of (r, g, b) \<Rightarrow> [r, g, b]))) s4;
          s6 = bindBuffer None s5;
          s7 = s6\<lparr>currentCoordByteOffset := currentCoordByteOffset s6 + 2 * BYTES_PER_ELEMENT\<rparr>;
          s8 = s7\<lparr>currentColorByteOffset := currentColorByteOffset s7 + 3 * BYTES_PER_ELEMENT\<rparr>
      in render s8)"

text \<open>The handlers of the mode and colour controls; the colour arrives as converted by
  \<^verbatim>\<open>hexToRgb\<close>.\<close>

definition changeMode :: "PrimitiveMode \<Rightarrow> state \<Rightarrow> state" where
  "changeMode m s = s\<lparr>drawingMode := m\<rparr>"

definition changeColor :: "ieee \<times> ieee \<times> ieee \<Rightarrow> state \<Rightarrow> state" where
  "changeColor c s = s\<lparr>drawingColor := c\<rparr>"

text \<open>
  The state when the \<^verbatim>\<open>load\<close> handler \<^verbatim>\<open>init\<close> has finished, for the initial values \<open>m\<close> and
  \<open>c\<close> of the two controls: zero offsets, zero-filled buffers, nothing bound, one render.
\<close>

definition init :: "PrimitiveMode \<Rightarrow> ieee \<times> ieee \<times> ieee \<Rightarrow> state" where
  "init m c = render
     \<lparr>drawingHistory = [],
      currentCoordByteOffset = 0,
      currentColorByteOffset = 0,
      drawingMode = m,
      drawingColor = c,
      posBuffer = (\<lambda>i. Fin 0),
      colorBuffer = (\<lambda>i. Fin 0),
      arrayBufferBinding = None,
      vertexArrayBinding = False,
      glCalls = []\<rparr>"

text \<open>
  The editing events of a session and the handler each one runs; a session is a list of
  events, handled one after the other.
\<close>

datatype event = ModeChanged PrimitiveMode | ColorChanged "ieee \<times> ieee \<times> ieee" | Clicked click

fun handle :: "event \<Rightarrow> state \<Rightarrow> state" where
  "handle (ModeChanged m) s = changeMode m s"
| "handle (ColorChanged c) s = changeColor c s"
| "handle (Clicked e) s = addVertex e s"

definition run :: "event list \<Rightarrow> state \<Rightarrow> state" where
  "run evs s = foldl (\<lambda>s ev. handle ev s) s evs"

section \<open>downloadDrawing and uploadDrawing\<close>

text \<open>\<^verbatim>\<open>JSON.stringify\<close> of a number: a non-finite number is written as \<^verbatim>\<open>null\<close>.\<close>

fun stringifyNumber :: "ieee \<Rightarrow> jsval" where
  "stringifyNumber (Fin r) = JNum r"
| "stringifyNumber NonFinite = JNull"

fun stringifyValue :: "jsval \<Rightarrow> jsval" where
  "stringifyValue JNonFinite = JNull"
| "stringifyValue v = v"

fun stringifyEntry :: "entry \<Rightarrow> json" where
  "stringifyEntry (Run m n) = JRun m n"
| "stringifyEntry (Float32Array fs) = JObject (map stringifyNumber fs)"
| "stringifyEntry (Object vs) = JObject (map stringifyValue vs)"

definition JSON_stringify :: "entry list \<Rightarrow> json list" where
  "JSON_stringify h = map stringifyEntry h"

fun parseEntry :: "json \<Rightarrow> entry" where
  "parseEntry (JRun m n) = Run m n"
| "parseEntry (JObject vs) = Object vs"

definition JSON_parse :: "json list \<Rightarrow> entry list" where
  "JSON_parse doc = map parseEntry doc"

text \<open>
  \<^verbatim>\<open>new Float32Array(byteOffset / BYTES_PER_ELEMENT)\<close>: zero-filled; a length that is not an
  integer is truncated.
\<close>

definition newFloat32Array :: "nat \<Rightarrow> ieee list" where
  "newFloat32Array byteOffset = replicate (byteOffset div BYTES_PER_ELEMENT) (Fin 0)"

text \<open>
  The result is the state the handler leaves and the tree of the file it offers for
  saving.
\<close>

definition downloadDrawing :: "state \<Rightarrow> state \<times> json list" where
  "downloadDrawing s =
     (let vertices0 = newFloat32Array (currentCoordByteOffset s);
          colors0 = newFloat32Array (currentColorByteOffset s);
          s1 = bindBuffer (Some PosBuffer) s;
          vertices = getBufferSubData vertices0 s1;
          s2 = bindBuffer (Some ColorBuffer) s1;
          colors = getBufferSubData colors0 s2;
          s3 = s2\<lparr>drawingHistory :=
                  drawingHistory s2 @ [Float32Array vertices, Float32Array colors]\<rparr>;
          file = JSON_stringify (drawingHistory s3);
          s4 = bindBuffer None s3
      in (s4, file))"

text \<open>\<^verbatim>\<open>drawingHistory.pop()\<close>: the removed entry (\<open>None\<close> is \<^verbatim>\<open>undefined\<close>) and the rest.\<close>

definition pop :: "entry list \<Rightarrow> entry option \<times> entry list" where
  "pop h = (if h = [] then (None, []) else (Some (last h), butlast h))"

text \<open>
  \<^verbatim>\<open>Object.values\<close>: throws \<^verbatim>\<open>TypeError\<close> on \<^verbatim>\<open>undefined\<close>; the values of a run record are
  its mode string and its length.
\<close>

fun Object_values :: "entry option \<Rightarrow> js_error + jsval list" where
  "Object_values None = Inl TypeError"
| "Object_values (Some (Run m n)) = Inr [JStr m, JNum (real n)]"
| "Object_values (Some (Float32Array fs)) = Inr (map numberValue fs)"
| "Object_values (Some (Object vs)) = Inr vs"

text \<open>
  The \<^verbatim>\<open>load\<close> handler of the file reader, applied to the tree of the file (a text that
  is no JSON makes \<^verbatim>\<open>JSON.parse\<close> throw before anything is assigned). An exception leaves
  the state as it is at the throw: \<open>Inl\<close> carries the error and that state.
\<close>

definition uploadDrawing :: "json list \<Rightarrow> state \<Rightarrow> (js_error \<times> state) + state" where
  "uploadDrawing doc s =
     (let s1 = s\<lparr>drawingHistory := JSON_parse doc\<rparr>;
          (popped1, h1) = pop (drawingHistory s1);
          s2 = s1\<lparr>drawingHistory := h1\<rparr>
      in case Object_values popped1 of
           Inl err \<Rightarrow> Inl (err, s2)
         | Inr colors \<Rightarrow>
     (let (popped2, h2) = pop (drawingHistory s2);
          s3 = s2\<lparr>drawingHistory := h2\<rparr>
      in case Object_values popped2 of
           Inl err \<Rightarrow> Inl (err, s3)
         | Inr vertices \<Rightarrow>
     (let s4 = bindBuffer (Some PosBuffer) s3;
          s5 = bufferSubData 0 (Float32Array_from vertices) s4;
          s6 = bindBuffer (Some ColorBuffer) s5;
          s7 = bufferSubData 0 (Float32Array_from colors) s6;
          s8 = s7\<lparr>currentCoordByteOffset := length vertices * BYTES_PER_ELEMENT\<rparr>;
          s9 = s8\<lparr>currentColorByteOffset := length colors * BYTES_PER_ELEMENT\<rparr>
      in Inr (render s9))))"

section \<open>Derived notions\<close>

text \<open>The running offset a render pass ends with: the sum of the run lengths.\<close>

definition totalVertices :: "entry list \<Rightarrow> jsnumber" where
  "totalVertices h = foldl jsplus (N 0) (map vertLength h)"

text \<open>The draw calls of a pass over a list of entries, from a given running offset.\<close>

fun drawCalls :: "jsnumber \<Rightarrow> entry list \<Rightarrow> glcall list" where
  "drawCalls i [] = []"
| "drawCalls i (e # es) =
     DrawArrays (mode e) i (vertLength e) # drawCalls (jsplus i (vertLength e)) es"

text \<open>The calls one render pass adds to the log.\<close>

definition issued :: "state \<Rightarrow> glcall list" where
  "issued s = drop (length (glCalls s)) (glCalls (render s))"

definition vertexCount :: "state \<Rightarrow> nat" where
  "vertexCount s = currentCoordByteOffset s div (2 * BYTES_PER_ELEMENT)"

text \<open>The used prefix of each buffer, as \<^verbatim>\<open>downloadDrawing\<close> sizes it.\<close>

definition positions :: "state \<Rightarrow> ieee list" where
  "positions s = map (posBuffer s) [0..<currentCoordByteOffset s div BYTES_PER_ELEMENT]"

definition colors :: "state \<Rightarrow> ieee list" where
  "colors s = map (colorBuffer s) [0..<currentColorByteOffset s div BYTES_PER_ELEMENT]"

text \<open>The ledger invariant: whole vertices only, and the run lengths add up to their number.\<close>

definition ledgerInv :: "state \<Rightarrow> bool" where
  "ledgerInv s \<longleftrightarrow>
     currentCoordByteOffset s mod (2 * BYTES_PER_ELEMENT) = 0
     \<and> totalVertices (drawingHistory s) = N (vertexCount s)"

text \<open>Run records among the entries, finite numbers among the cells.\<close>

fun isRun :: "entry \<Rightarrow> bool" where
  "isRun (Run m n) = True"
| "isRun e = False"


text \<open>A cell that holds a single-precision value: converting it again changes nothing.\<close>

definition isSingle :: "ieee \<Rightarrow> bool" where
  "isSingle v \<longleftrightarrow> fround v = v"

fun isClick :: "event \<Rightarrow> bool" where
  "isClick (Clicked e) = True"
| "isClick ev = False"

definition clicks :: "event list \<Rightarrow> nat" where
  "clicks evs = length (filter isClick evs)"

text \<open>
  What holds of a state after \<open>n\<close> clicks from the initial state: offsets in step, a
  history of run records, single-precision values in every cell.
\<close>

definition reached :: "nat \<Rightarrow> state \<Rightarrow> bool" where
  "reached n s \<longleftrightarrow>
     currentCoordByteOffset s = 2 * BYTES_PER_ELEMENT * n
     \<and> currentColorByteOffset s = 3 * BYTES_PER_ELEMENT * n
     \<and> list_all isRun (drawingHistory s)
     \<and> (\<forall>i. isSingle (posBuffer s i))
     \<and> (\<forall>i. isSingle (colorBuffer s i))"

text \<open>A click and a colour for the concrete instances below.\<close>

definition click0 :: click where
  "click0 = \<lparr>offsetX = 30, offsetY = 40, offsetWidth = 200, offsetHeight = 100\<rparr>"

definition red :: "ieee \<times> ieee \<times> ieee" where
  "red = (Fin 1, Fin 0, Fin 0)"


text \<open>The session of one click, and the session that fills the buffers.\<close>

definition oneVertex :: state where
  "oneVertex = run [Clicked click0] (init POINTS red)"

definition full :: state where
  "full = run (replicate MAX_VERTICES (Clicked click0)) (init POINTS red)"

text \<open>
  A snapshot with one run record, a position array of odd length (one number, half a
  vertex) and a colour array for one vertex.
\<close>

definition badSnapshot :: "json list" where
  "badSnapshot = [JRun POINTS 1, JObject [JNum (1 / 2)], JObject [JNum 1, JNum 0, JNum 0]]"

section \<open>Facts about rounding\<close>

lemma powi_less_exp: "(2::real) powi m < 2 powi n \<Longrightarrow> m < n"
  using power_int_increasing [of n m "2::real"] by (cases "m < n") auto

lemma powi_le_exp: "(2::real) powi m \<le> 2 powi n \<Longrightarrow> m \<le> n"
  using power_int_strict_increasing [of n m "2::real"] by (cases "m \<le> n") auto

lemma powi_Suc: "(2::real) powi (e + 1) = 2 * 2 powi e"
  by (simp add: power_int_add)

lemma powi_pred: "(2::real) powi (e - 1) = 2 powi e / 2"
  by (simp add: power_int_diff)

lemma halvings_le: "halvings k a \<le> k"
  by (induction k arbitrary: a) auto

lemma halvings_lower: "1 \<le> a \<Longrightarrow> 2 ^ halvings k a \<le> a"
proof (induction k arbitrary: a)
  case 0
  then show ?case by simp
next
  case (Suc k)
  show ?case
  proof (cases "a < 2")
    case True
    with Suc.prems show ?thesis by simp
  next
    case False
    then have "1 \<le> a / 2" by simp
    from Suc.IH [OF this] False show ?thesis by simp
  qed
qed

lemma halvings_upper: "halvings k a = k \<or> a < 2 ^ Suc (halvings k a)"
proof (induction k arbitrary: a)
  case 0
  show ?case by simp
next
  case (Suc k)
  show ?case
  proof (cases "a < 2")
    case True
    then show ?thesis by simp
  next
    case False
    with Suc.IH [of "a / 2"] show ?thesis by auto
  qed
qed

lemma doublings_le: "doublings k a \<le> k"
  by (induction k arbitrary: a) auto

lemma doublings_ge1: "1 \<le> a \<Longrightarrow> doublings k a = 0"
  by (cases k) auto

lemma doublings_lower: "doublings k a = k \<or> 2 powi (- int (doublings k a)) \<le> a"
proof (induction k arbitrary: a)
  case 0
  show ?case by simp
next
  case (Suc k)
  show ?case
  proof (cases "1 \<le> a")
    case True
    then show ?thesis by simp
  next
    case False
    have "- int (Suc (doublings k (2 * a))) = - int (doublings k (2 * a)) - 1" by simp
    then have e: "(2::real) powi (- int (Suc (doublings k (2 * a))))
               = 2 powi (- int (doublings k (2 * a))) / 2"
      by (simp only: powi_pred)
    have d: "doublings (Suc k) a = Suc (doublings k (2 * a))" using False by simp
    from Suc.IH [of "2 * a"] show ?thesis
    proof
      assume "doublings k (2 * a) = k"
      with d show ?thesis by simp
    next
      assume "2 powi (- int (doublings k (2 * a))) \<le> 2 * a"
      then have "2 powi (- int (doublings k (2 * a))) / 2 \<le> a" by simp
      then show ?thesis unfolding d e by simp
    qed
  qed
qed

lemma doublings_upper: "a < 1 \<Longrightarrow> a < 2 powi (1 - int (doublings k a))"
proof (induction k arbitrary: a)
  case 0
  then show ?case by simp
next
  case (Suc k)
  show ?case
  proof (cases "2 * a < 1")
    case True
    have "1 - int (Suc (doublings k (2 * a))) = 1 - int (doublings k (2 * a)) - 1" by simp
    then have e: "(2::real) powi (1 - int (Suc (doublings k (2 * a))))
               = 2 powi (1 - int (doublings k (2 * a))) / 2"
      by (simp only: powi_pred)
    have d: "doublings (Suc k) a = Suc (doublings k (2 * a))" using Suc.prems by simp
    from Suc.IH [OF True] have "a < 2 powi (1 - int (doublings k (2 * a))) / 2" by simp
    then show ?thesis unfolding d e .
  next
    case False
    then have "doublings k (2 * a) = 0" by (simp add: doublings_ge1)
    with Suc.prems show ?thesis by simp
  qed
qed

lemma binade_range:
  assumes "emin \<le> 0"
  shows "emin \<le> binade emax emin a" and "binade emax emin a \<le> int emax + 1"
proof -
  have "int (doublings (nat (- emin)) a) \<le> - emin"
    using doublings_le [of "nat (- emin)" a] assms by linarith
  then show "emin \<le> binade emax emin a"
    using assms by (simp add: binade_def)
  have "int (halvings (emax + 1) a) \<le> int emax + 1"
    using halvings_le [of "emax + 1" a] by linarith
  then show "binade emax emin a \<le> int emax + 1"
    by (simp add: binade_def)
qed

lemma binade_lower:
  assumes "emin \<le> 0"
  shows "binade emax emin a = emin \<or> 2 powi binade emax emin a \<le> a"
proof (cases "1 \<le> a")
  case True
  with halvings_lower [OF True, of "emax + 1"] show ?thesis by (simp add: binade_def)
next
  case False
  with doublings_lower [of "nat (- emin)" a] assms show ?thesis
    by (auto simp add: binade_def)
qed

lemma binade_upper:
  "binade emax emin a = int emax + 1 \<or> a < 2 powi (binade emax emin a + 1)"
proof (cases "1 \<le> a")
  case True
  have "(2::real) powi (int (halvings (emax + 1) a) + 1) = 2 ^ Suc (halvings (emax + 1) a)"
    by (simp add: powi_Suc)
  with halvings_upper [of "emax + 1" a] True show ?thesis
    by (auto simp add: binade_def)
next
  case False
  then have "a < 1" by simp
  from doublings_upper [OF this, of "nat (- emin)"] False show ?thesis
    by (simp add: binade_def add.commute)
qed

lemma binade_eq:
  assumes "emin \<le> 0" and "2 powi e \<le> a" and "a < 2 powi (e + 1)"
    and "emin \<le> e" and "e \<le> int emax"
  shows "binade emax emin a = e"
proof -
  let ?b = "binade emax emin a"
  have le: "?b \<le> e"
  proof (cases "?b = emin")
    case True
    with assms(4) show ?thesis by simp
  next
    case False
    with binade_lower [OF assms(1), of emax a] have "2 powi ?b \<le> a" by simp
    with assms(3) have "(2::real) powi ?b < 2 powi (e + 1)" by linarith
    from powi_less_exp [OF this] show ?thesis by simp
  qed
  with assms(5) have "?b \<noteq> int emax + 1" by simp
  with binade_upper [of emax emin a] have "a < 2 powi (?b + 1)" by simp
  with assms(2) have "(2::real) powi e < 2 powi (?b + 1)" by linarith
  from powi_less_exp [OF this] le show ?thesis by simp
qed

lemma roundHalfEven_of_int: "roundHalfEven (of_int n) = n"
  by (simp add: roundHalfEven_def)

lemma roundHalfEven_ge: "of_int n \<le> q \<Longrightarrow> n \<le> roundHalfEven q"
proof -
  assume "of_int n \<le> q"
  then have "n \<le> \<lfloor>q\<rfloor>" by (simp add: le_floor_iff)
  then show ?thesis by (simp add: roundHalfEven_def Let_def)
qed

lemma roundHalfEven_le: "q \<le> of_int n \<Longrightarrow> roundHalfEven q \<le> n"
proof (cases "q = of_int \<lfloor>q\<rfloor>")
  case True
  assume "q \<le> of_int n"
  with True have "\<lfloor>q\<rfloor> \<le> n" by (simp add: floor_le_iff) 
  moreover have "roundHalfEven q = \<lfloor>q\<rfloor>" using True by (simp add: roundHalfEven_def Let_def)
  ultimately show ?thesis by simp
next
  case False
  assume q: "q \<le> of_int n"
  from False have "q \<noteq> of_int n" by auto
  with q have "q < of_int n" by simp
  then have "\<lfloor>q\<rfloor> < n" by (simp add: floor_less_iff)
  then show ?thesis by (simp add: roundHalfEven_def Let_def)
qed

lemma roundTo_unfold:
  assumes "x \<noteq> 0" and "a = \<bar>x\<bar>" and "e = binade emax emin a"
    and "u = 2 powi (e - (int p - 1))" and "n = roundHalfEven (a / u)"
  shows "roundTo p emax emin x =
           (if 2 ^ (emax + 1) \<le> of_int n * u then NonFinite else Fin (sgn x * (of_int n * u)))"
  using assms by (simp add: roundTo_def Let_def)

lemma roundTo_representable:
  assumes emin: "emin \<le> 0"
    and x: "x = of_int m * 2 powi k"
    and m: "\<bar>m\<bar> < 2 ^ p"
    and k: "emin - (int p - 1) \<le> k"
    and fin: "\<bar>x\<bar> < 2 ^ (emax + 1)"
  shows "roundTo p emax emin x = Fin x"
proof (cases "x = 0")
  case True
  then show ?thesis by (simp add: roundTo_def)
next
  case False
  define a where "a = \<bar>x\<bar>"
  define e where "e = binade emax emin a"
  define u :: real where "u = 2 powi (e - (int p - 1))"
  define n where "n = roundHalfEven (a / u)"
  have u: "0 < u" by (simp add: u_def)
  have a: "a = of_int \<bar>m\<bar> * 2 powi k"
    by (simp add: a_def x abs_mult)
  have j: "e - (int p - 1) \<le> k"
  proof (cases "e = emin")
    case True
    with k show ?thesis by simp
  next
    case ne: False
    with binade_lower [OF emin, of emax a] have "2 powi e \<le> a" by (simp add: e_def)
    also have "a < 2 ^ p * 2 powi k"
    proof -
      have "real_of_int \<bar>m\<bar> < 2 ^ p" using m by (metis of_int_less_numeral_power_cancel_iff)
      then show ?thesis unfolding a by (simp add: mult_strict_right_mono)
    qed
    also have "\<dots> = 2 powi (int p + k)" by (simp add: power_int_add)
    finally have "e < int p + k" by (rule powi_less_exp)
    then show ?thesis by simp
  qed
  define j where "j = nat (k - (e - (int p - 1)))"
  have kj: "k = (e - (int p - 1)) + int j" using j by (simp add: j_def)
  have pk: "(2::real) powi k = u * 2 ^ j"
    by (subst kj) (simp add: power_int_add u_def)
  have "a / u = of_int \<bar>m\<bar> * 2 ^ j"
    unfolding a pk using u by simp
  then have q: "a / u = of_int (\<bar>m\<bar> * 2 ^ j)" by simp
  have "n = \<bar>m\<bar> * 2 ^ j" unfolding n_def q by (rule roundHalfEven_of_int)
  then have "of_int n = a / u" using q by simp
  then have r: "of_int n * u = a" using u by simp
  have s: "sgn x * a = x" by (simp add: a_def sgn_mult_abs)
  have "\<not> 2 ^ (emax + 1) \<le> a" using fin by (simp add: a_def)
  then show ?thesis
    unfolding roundTo_unfold [OF False a_def e_def u_def n_def] r s by simp
qed

lemma roundTo_eval:
  assumes "emin \<le> 0" and "x \<noteq> 0" and "2 powi e \<le> \<bar>x\<bar>" and "\<bar>x\<bar> < 2 powi (e + 1)"
    and "emin \<le> e" and "e \<le> int emax"
  shows "roundTo p emax emin x =
     (let u = 2 powi (e - (int p - 1)); r = of_int (roundHalfEven (\<bar>x\<bar> / u)) * u
      in if 2 ^ (emax + 1) \<le> r then NonFinite else Fin (sgn x * r))"
  using assms(2) binade_eq [OF assms(1) assms(3) assms(4) assms(5) assms(6)]
  by (simp add: roundTo_def Let_def)

lemma roundTo_idem:
  assumes emin: "emin \<le> 0" and p: "0 < p" and r: "roundTo p emax emin x = Fin y"
  shows "roundTo p emax emin y = Fin y"
proof (cases "x = 0")
  case True
  with r have "y = 0" by (simp add: roundTo_def)
  then show ?thesis by (simp add: roundTo_def)
next
  case False
  define a where "a = \<bar>x\<bar>"
  define e where "e = binade emax emin a"
  define u :: real where "u = 2 powi (e - (int p - 1))"
  define n where "n = roundHalfEven (a / u)"
  have u: "0 < u" by (simp add: u_def)
  have a0: "0 < a" using False by (simp add: a_def)
  from r have fin: "of_int n * u < 2 ^ (emax + 1)"
    and y: "y = sgn x * (of_int n * u)"
    unfolding roundTo_unfold [OF False a_def e_def u_def n_def]
    by (auto split: if_splits)
  have n0: "0 \<le> n"
    unfolding n_def using a0 u by (intro roundHalfEven_ge) simp
  have range: "emin \<le> e" unfolding e_def by (rule binade_range [OF emin])
  define sg :: int where "sg = (if 0 < x then 1 else - 1)"
  have sg: "sgn x = of_int sg" using False by (simp add: sg_def sgn_if)
  have asg: "\<bar>sg\<bar> = 1" by (simp add: sg_def)
  have asgr: "\<bar>real_of_int sg\<bar> = 1" by (simp add: sg_def)
  have "\<bar>y\<bar> = \<bar>real_of_int sg\<bar> * (\<bar>real_of_int n\<bar> * \<bar>u\<bar>)"
    unfolding y sg by (simp only: abs_mult)
  also have "\<dots> = of_int n * u" using n0 u asgr by simp
  finally have ay: "\<bar>y\<bar> = of_int n * u" .
  have finy: "\<bar>y\<bar> < 2 ^ (emax + 1)" using fin ay by simp
  show ?thesis
  proof (cases "n < 2 ^ p")
    case True
    have "y = of_int (sg * n) * 2 powi (e - (int p - 1))" by (simp add: y sg u_def)
    moreover have "\<bar>sg * n\<bar> < 2 ^ p" using True n0 asg by (simp add: abs_mult)
    moreover have "emin - (int p - 1) \<le> e - (int p - 1)" using range by simp
    ultimately show ?thesis using finy by (rule roundTo_representable [OF emin])
  next
    case big: False
    then have nb: "(2::real) ^ p \<le> of_int n"
      by (metis not_less numeral_power_le_of_int_cancel_iff)
    have ue: "2 ^ (p - 1) * u = 2 powi e"
    proof -
      have "(2::real) ^ (p - 1) = 2 powi (int p - 1)" using p by (simp add: power_int_def nat_diff_distrib)
      then show ?thesis by (simp add: u_def power_int_add [symmetric])
    qed
    have up: "a < 2 powi (e + 1)"
    proof (rule ccontr)
      assume "\<not> a < 2 powi (e + 1)"
      with binade_upper [of emax emin a] have e: "e = int emax + 1" by (simp add: e_def)
      have "(2::real) ^ (emax + 1) = 2 powi e" by (simp add: e power_int_add)
      also have "\<dots> = 2 ^ (p - 1) * u" by (rule ue [symmetric])
      also have "\<dots> \<le> 2 ^ p * u" using u by (simp add: power_increasing)
      also have "\<dots> \<le> of_int n * u" using nb u by (simp add: mult_right_mono)
      finally show False using fin by simp
    qed
    have pp: "(2::real) ^ p = 2 * 2 ^ (p - 1)" using p by (cases p) simp_all
    have "a < 2 * 2 powi e" using up by (simp add: powi_Suc)
    also have "\<dots> = 2 * (2 ^ (p - 1) * u)" by (simp only: ue)
    also have "\<dots> = 2 ^ p * u" by (simp only: pp mult.assoc)
    finally have "a / u < 2 ^ p" using u by (simp add: pos_divide_less_eq)
    then have "a / u \<le> of_int (2 ^ p)" by simp
    from roundHalfEven_le [OF this] big have n: "n = 2 ^ p" by (simp add: n_def)
    have "of_int n * u = 2 ^ (p - 1) * (2 * u)" by (simp add: n pp)
    also have "2 * u = 2 powi (e - (int p - 1) + 1)"
      unfolding u_def by (rule powi_Suc [symmetric])
    finally have "y = of_int (sg * 2 ^ (p - 1)) * 2 powi (e - (int p - 1) + 1)"
      by (simp add: y sg)
    moreover have "\<bar>sg * 2 ^ (p - 1)\<bar> < (2::int) ^ p"
      using p asg by (simp add: abs_mult)
    moreover have "emin - (int p - 1) \<le> e - (int p - 1) + 1" using range by simp
    ultimately show ?thesis using finy by (rule roundTo_representable [OF emin])
  qed
qed

lemma round64_of_int:
  assumes "\<bar>n\<bar> < 2 ^ 53"
  shows "round64 (of_int n) = Fin (of_int n)"
  unfolding round64_def
proof (rule roundTo_representable [where m = n and k = 0])
  show "\<bar>n\<bar> < 2 ^ 53" by (rule assms)
  have "real_of_int \<bar>n\<bar> < 2 ^ 53" using assms by (metis of_int_less_numeral_power_cancel_iff)
  also have "(2::real) ^ 53 \<le> 2 ^ (1023 + 1)" by (rule power_increasing) simp_all
  finally show "\<bar>real_of_int n\<bar> < 2 ^ (1023 + 1)" by simp
qed simp_all

lemma round32_of_int:
  assumes "\<bar>n\<bar> < 2 ^ 24"
  shows "round32 (of_int n) = Fin (of_int n)"
  unfolding round32_def
proof (rule roundTo_representable [where m = n and k = 0])
  show "\<bar>n\<bar> < 2 ^ 24" by (rule assms)
  have "real_of_int \<bar>n\<bar> < 2 ^ 24" using assms by (metis of_int_less_numeral_power_cancel_iff)
  also have "(2::real) ^ 24 \<le> 2 ^ (127 + 1)" by (rule power_increasing) simp_all
  finally show "\<bar>real_of_int n\<bar> < 2 ^ (127 + 1)" by simp
qed simp_all

lemma round64_idem: "round64 x = Fin y \<Longrightarrow> round64 y = Fin y"
  unfolding round64_def by (rule roundTo_idem) simp_all

lemma round32_idem: "round32 x = Fin y \<Longrightarrow> round32 y = Fin y"
  unfolding round32_def by (rule roundTo_idem) simp_all

lemma round_small [simp]:
  "round64 0 = Fin 0" "round64 1 = Fin 1" "round64 2 = Fin 2" "round64 (- 1) = Fin (- 1)"
  "round32 0 = Fin 0" "round32 1 = Fin 1" "round32 (- 1) = Fin (- 1)"
  using round64_of_int [of 0] round64_of_int [of 1] round64_of_int [of 2] round64_of_int [of "- 1"]
    round32_of_int [of 0] round32_of_int [of 1] round32_of_int [of "- 1"]
  by simp_all

lemma round64_eval:
  assumes "x \<noteq> 0" and "2 powi e \<le> \<bar>x\<bar>" and "\<bar>x\<bar> < 2 powi (e + 1)"
    and "- 1022 \<le> e" and "e \<le> 1023"
  shows "round64 x =
     (let u = 2 powi (e - 52); r = of_int (roundHalfEven (\<bar>x\<bar> / u)) * u
      in if 2 ^ 1024 \<le> r then NonFinite else Fin (sgn x * r))"
  unfolding round64_def
  using roundTo_eval [of "- 1022" x e 1023 53] assms by simp

lemma round32_eval:
  assumes "x \<noteq> 0" and "2 powi e \<le> \<bar>x\<bar>" and "\<bar>x\<bar> < 2 powi (e + 1)"
    and "- 126 \<le> e" and "e \<le> 127"
  shows "round32 x =
     (let u = 2 powi (e - 23); r = of_int (roundHalfEven (\<bar>x\<bar> / u)) * u
      in if 2 ^ 128 \<le> r then NonFinite else Fin (sgn x * r))"
  unfolding round32_def
  using roundTo_eval [of "- 126" x e 127 24] assms by simp

lemma r64_3_10: "round64 (3 / 10) = Fin (5404319552844595 / 18014398509481984)"
  by (subst round64_eval [where e = "- 2"]) (simp_all add: roundHalfEven_def Let_def)

lemma r64_m7_10:
  "round64 (- (12610078956637389 / 18014398509481984))
     = Fin (- (3152519739159347 / 4503599627370496))"
  by (subst round64_eval [where e = "- 1"]) (simp_all add: roundHalfEven_def Let_def)

lemma r32_m7_10:
  "round32 (- (3152519739159347 / 4503599627370496)) = Fin (- (11744051 / 16777216))"
  by (subst round32_eval [where e = "- 1"]) (simp_all add: roundHalfEven_def Let_def)

lemma r64_4_5: "round64 (4 / 5) = Fin (3602879701896397 / 4503599627370496)"
  by (subst round64_eval [where e = "- 1"]) (simp_all add: roundHalfEven_def Let_def)

lemma r64_1_5:
  "round64 (900719925474099 / 4503599627370496) = Fin (900719925474099 / 4503599627370496)"
  by (subst round64_eval [where e = "- 3"]) (simp_all add: roundHalfEven_def Let_def)

lemma r32_1_5:
  "round32 (900719925474099 / 4503599627370496) = Fin (13421773 / 67108864)"
  by (subst round32_eval [where e = "- 3"]) (simp_all add: roundHalfEven_def Let_def)

section \<open>Basic facts\<close>

lemma foldl_drawEntry:
  "foldl drawEntry (s, i) h =
     (s\<lparr>glCalls := glCalls s @ drawCalls i h\<rparr>, foldl jsplus i (map vertLength h))"
  by (induction h arbitrary: s i) (simp_all add: drawEntry_def drawArrays_def)

lemma drawHistory_eq:
  "drawHistory s =
     (s\<lparr>glCalls := glCalls s @ drawCalls (N 0) (drawingHistory s)\<rparr>,
      totalVertices (drawingHistory s))"
  by (simp add: drawHistory_def foldl_drawEntry totalVertices_def)

lemma render_eq:
  "render s = s\<lparr>vertexArrayBinding := False,
                glCalls := glCalls s @ Clear # drawCalls (N 0) (drawingHistory s)\<rparr>"
  by (simp add: render_def clear_def bindVertexArray_def drawHistory_eq)

lemma totalVertices_snoc:
  "totalVertices (h @ [e]) = jsplus (totalVertices h) (vertLength e)"
  by (simp add: totalVertices_def)

lemma jsplus_assoc: "jsplus (jsplus a (Some n)) (Some k) = jsplus a (Some (n + k))"
  by (cases a) simp_all

lemma recordVertex_cases:
  "recordVertex m h =
     (if h \<noteq> [] \<and> mode (last h) = Some m then butlast h @ [incrVertLength (last h)]
      else h @ [Run m 1])"
proof (cases "h = []")
  case True
  then show ?thesis by (simp add: recordVertex_def)
next
  case False
  then have l: "h ! (length h - 1) = last h" by (simp add: last_conv_nth)
  show ?thesis
  proof (cases "mode (last h) = Some m")
    case True
    have "h[length h - 1 := incrVertLength (last h)] = butlast h @ [incrVertLength (last h)]"
      using False by (metis append_butlast_last_id length_butlast list_update_length)
    with True False l show ?thesis by (auto simp add: recordVertex_def Let_def)
  next
    case F2: False
    with False l show ?thesis by (auto simp add: recordVertex_def Let_def nth_append)
  qed
qed

lemma mode_Some: "mode e = Some m \<Longrightarrow> \<exists>n. e = Run m n"
  by (cases e) simp_all

lemma recordVertex_snoc_same:
  "recordVertex m (hs @ [Run m n]) = hs @ [Run m (n + 1)]"
  by (simp add: recordVertex_cases)

lemma totalVertices_recordVertex:
  "totalVertices (recordVertex m h) = jsplus (totalVertices h) (Some 1)"
proof (cases "h \<noteq> [] \<and> mode (last h) = Some m")
  case True
  then obtain n where n: "last h = Run m n" using mode_Some by blast
  with True have h: "h = butlast h @ [Run m n]" by (metis append_butlast_last_id)
  have "totalVertices (recordVertex m h) = totalVertices (butlast h @ [Run m (n + 1)])"
    using True n by (simp add: recordVertex_cases)
  also have "\<dots> = jsplus (totalVertices (butlast h)) (Some (n + 1))"
    by (simp add: totalVertices_snoc)
  also have "\<dots> = jsplus (jsplus (totalVertices (butlast h)) (Some n)) (Some 1)"
    by (simp add: jsplus_assoc)
  also have "\<dots> = jsplus (totalVertices (butlast h @ [Run m n])) (Some 1)"
    by (simp add: totalVertices_snoc)
  finally show ?thesis using h by simp
next
  case False
  then have "recordVertex m h = h @ [Run m 1]" by (auto simp add: recordVertex_cases)
  then show ?thesis by (simp add: totalVertices_snoc)
qed

lemma addVertex_eq:
  "addVertex e s =
     s\<lparr>drawingHistory := recordVertex (drawingMode s) (drawingHistory s),
       posBuffer := writeCells posBufferBytes (posBuffer s) (currentCoordByteOffset s)
                      (Float32Array_from (map numberValue (clipCoords e))),
       colorBuffer := writeCells colorBufferBytes (colorBuffer s) (currentColorByteOffset s)
                        (Float32Array_from
                           (map numberValue (case drawingColor s of (r, g, b) \<Rightarrow> [r, g, b]))),
       arrayBufferBinding := None,
       currentCoordByteOffset := currentCoordByteOffset s + 2 * BYTES_PER_ELEMENT,
       currentColorByteOffset := currentColorByteOffset s + 3 * BYTES_PER_ELEMENT,
       vertexArrayBinding := False,
       glCalls := glCalls s @ Clear # drawCalls (N 0) (recordVertex (drawingMode s) (drawingHistory s))\<rparr>"
  by (simp add: addVertex_def Let_def render_eq bindBuffer_def bufferSubData_def)

lemma ledgerInv_init: "ledgerInv (init m c)"
  by (simp add: ledgerInv_def init_def render_eq totalVertices_def vertexCount_def)

lemma ledgerInv_handle: "ledgerInv s \<Longrightarrow> ledgerInv (handle ev s)"
proof (cases ev)
  case (Clicked e)
  assume "ledgerInv s"
  then show ?thesis using Clicked
    by (simp add: ledgerInv_def addVertex_eq totalVertices_recordVertex vertexCount_def
        BYTES_PER_ELEMENT_def)
qed (simp_all add: ledgerInv_def changeMode_def changeColor_def vertexCount_def)

lemma ledgerInv_run: "ledgerInv s \<Longrightarrow> ledgerInv (run evs s)"
  unfolding run_def by (induction evs arbitrary: s) (simp_all add: ledgerInv_handle)

section \<open>The ledger and the vertex count\<close>

text \<open>
  Claim C1. After any sequence of editing events from the initial state, the running
  offset a render pass would end with, which is the sum of the lengths of the run records
  in \<^verbatim>\<open>drawingHistory\<close>, is a number and equals the number of vertices the coordinate
  byte offset stands for (the offset divided by the bytes of one position of two floats).
\<close>

theorem ledger_total_eq_vertexCount:
  "totalVertices (drawingHistory (run evs (init m c))) = N (vertexCount (run evs (init m c)))"
  using ledgerInv_run [OF ledgerInv_init] by (simp add: ledgerInv_def)

section \<open>Run segmentation\<close>

lemma addVertex_history:
  "drawingHistory (addVertex e s) = recordVertex (drawingMode s) (drawingHistory s)"
  by (simp add: addVertex_eq)

lemma recordVertex_other:
  "h = [] \<or> mode (last h) \<noteq> Some m \<Longrightarrow> recordVertex m h = h @ [Run m 1]"
  by (auto simp add: recordVertex_cases)

text \<open>
  Claim C2. A click in state \<open>s\<close> places a vertex with the active mode \<open>drawingMode s\<close>.
  If the history ends with a run record of that mode, the length of that record grows by
  one and nothing else changes; if the history is empty or its last entry has another
  mode (or none), a new record of the active mode with length 1 is appended. From the
  initial state, clicks made under the modes \<open>A, A, B, B, B, A\<close> with \<open>A \<noteq> B\<close> leave
  exactly the records \<open>(A, 2), (B, 3), (A, 1)\<close>, in this order.
\<close>

theorem recordVertex_extends_or_appends:
  "(drawingHistory s = hs @ [Run (drawingMode s) n] \<longrightarrow>
      drawingHistory (addVertex e s) = hs @ [Run (drawingMode s) (n + 1)])
   \<and> (drawingHistory s = [] \<or> mode (last (drawingHistory s)) \<noteq> Some (drawingMode s) \<longrightarrow>
      drawingHistory (addVertex e s) = drawingHistory s @ [Run (drawingMode s) 1])
   \<and> (A \<noteq> B \<longrightarrow>
      drawingHistory (run [ModeChanged A, Clicked e1, Clicked e2, ModeChanged B, Clicked e3,
                           Clicked e4, Clicked e5, ModeChanged A, Clicked e6] (init m c))
        = [Run A 2, Run B 3, Run A 1])"
proof (intro conjI impI)
  assume "drawingHistory s = hs @ [Run (drawingMode s) n]"
  then show "drawingHistory (addVertex e s) = hs @ [Run (drawingMode s) (n + 1)]"
    by (simp add: addVertex_history recordVertex_snoc_same)
next
  assume "drawingHistory s = [] \<or> mode (last (drawingHistory s)) \<noteq> Some (drawingMode s)"
  then show "drawingHistory (addVertex e s) = drawingHistory s @ [Run (drawingMode s) 1]"
    by (simp add: addVertex_history recordVertex_other)
next
  assume "A \<noteq> B"
  then have "B \<noteq> A" by simp
  have i: "drawingHistory (init m c) = []" by (simp add: init_def render_eq)
  show "drawingHistory (run [ModeChanged A, Clicked e1, Clicked e2, ModeChanged B, Clicked e3,
                           Clicked e4, Clicked e5, ModeChanged A, Clicked e6] (init m c))
        = [Run A 2, Run B 3, Run A 1]"
    using \<open>A \<noteq> B\<close> \<open>B \<noteq> A\<close>
    by (simp add: run_def changeMode_def addVertex_eq i recordVertex_cases)
qed

theorem recordVertex_extends_or_appends_witness:
  "drawingHistory (addVertex click0 (run [Clicked click0] (init POINTS red))) = [Run POINTS 2]
   \<and> drawingHistory (addVertex click0 (init POINTS red)) = [Run POINTS 1]
   \<and> drawingHistory (addVertex click0 (changeMode LINES (run [Clicked click0] (init POINTS red))))
       = [Run POINTS 1, Run LINES 1]
   \<and> drawingHistory (run [ModeChanged POINTS, Clicked click0, Clicked click0, ModeChanged LINES,
        Clicked click0, Clicked click0, Clicked click0, ModeChanged POINTS, Clicked click0]
        (init TRIANGLES red)) = [Run POINTS 2, Run LINES 3, Run POINTS 1]"
proof -
  have i: "drawingHistory (init POINTS red) = []" "drawingMode (init POINTS red) = POINTS"
    by (simp_all add: init_def render_eq)
  have h1: "drawingHistory (run [Clicked click0] (init POINTS red)) = [] @ [Run POINTS 1]"
    "drawingMode (run [Clicked click0] (init POINTS red)) = POINTS"
    by (simp_all add: run_def addVertex_eq i recordVertex_cases)
  have h2: "drawingHistory (changeMode LINES (run [Clicked click0] (init POINTS red))) = [Run POINTS 1]"
    "drawingMode (changeMode LINES (run [Clicked click0] (init POINTS red))) = LINES"
    using h1 by (simp_all add: changeMode_def)
  show ?thesis
    using recordVertex_extends_or_appends
            [of "run [Clicked click0] (init POINTS red)" "[]" 1 click0 POINTS LINES]
          recordVertex_extends_or_appends [of "init POINTS red" "[]" 0 click0 POINTS POINTS]
          recordVertex_extends_or_appends
            [of "changeMode LINES (run [Clicked click0] (init POINTS red))" "[]" 0 click0
                POINTS LINES click0 click0 click0 click0 click0 click0 TRIANGLES red]
    by (simp add: i h1 h2)
qed

section \<open>The render pass\<close>

lemma drawCalls_runs:
  "drawCalls (N i) (map (case_prod Run) rs) =
     map (\<lambda>k. DrawArrays (Some (fst (rs ! k))) (N (i + sum_list (map snd (take k rs))))
                 (Some (snd (rs ! k)))) [0..<length rs]"
proof (induction rs arbitrary: i)
  case Nil
  show ?case by simp
next
  case (Cons r rs)
  obtain m n where r: "r = (m, n)" by (cases r)
  show ?case
    by (simp add: r Cons.IH map_upt_Suc add.assoc del: upt_Suc)
qed

lemma foldl_jsplus_runs:
  "foldl jsplus (N i) (map vertLength (map (case_prod Run) rs)) = N (i + sum_list (map snd rs))"
  by (induction rs arbitrary: i) (auto simp add: add.assoc)

lemma totalVertices_runs:
  "totalVertices (map (case_prod Run) rs) = N (sum_list (map snd rs))"
  using foldl_jsplus_runs [of 0 rs] by (simp add: totalVertices_def del: map_map)

text \<open>
  Claim C7. When the history consists of the run records \<open>rs\<close>, a render pass clears the
  surface and then issues one draw call per record, in order: the call for record \<open>k\<close> has
  the record's mode, starts at the sum of the lengths of the records before it and counts
  the record's length; the running offset ends at the sum of all lengths. For the records
  \<open>(POINTS, 3), (LINES, 4)\<close> these are two draw calls with offsets 0 and 3 and counts 3 and 4,
  and the running offset ends at 7.
\<close>

theorem render_draws_each_run:
  "(drawingHistory s = map (case_prod Run) rs \<longrightarrow>
      glCalls (render s) = glCalls s @ Clear #
        map (\<lambda>k. DrawArrays (Some (fst (rs ! k))) (N (sum_list (map snd (take k rs))))
                    (Some (snd (rs ! k)))) [0..<length rs]
      \<and> snd (drawHistory (bindVertexArray True (clear s))) = N (sum_list (map snd rs)))
   \<and> (drawingHistory s = [Run POINTS 3, Run LINES 4] \<longrightarrow>
      glCalls (render s) = glCalls s @
        [Clear, DrawArrays (Some POINTS) (N 0) (Some 3), DrawArrays (Some LINES) (N 3) (Some 4)]
      \<and> snd (drawHistory (bindVertexArray True (clear s))) = N 7)"
proof (intro conjI impI)
  assume h: "drawingHistory s = map (case_prod Run) rs"
  show "glCalls (render s) = glCalls s @ Clear #
        map (\<lambda>k. DrawArrays (Some (fst (rs ! k))) (N (sum_list (map snd (take k rs))))
                    (Some (snd (rs ! k)))) [0..<length rs]"
    using drawCalls_runs [of 0 rs] by (simp add: render_eq h)
  show "snd (drawHistory (bindVertexArray True (clear s))) = N (sum_list (map snd rs))"
    by (simp add: drawHistory_eq bindVertexArray_def clear_def h totalVertices_runs)
next
  assume h: "drawingHistory s = [Run POINTS 3, Run LINES 4]"
  show "glCalls (render s) = glCalls s @
        [Clear, DrawArrays (Some POINTS) (N 0) (Some 3), DrawArrays (Some LINES) (N 3) (Some 4)]"
    by (simp add: render_eq h)
  show "snd (drawHistory (bindVertexArray True (clear s))) = N 7"
    by (simp add: drawHistory_eq bindVertexArray_def clear_def h totalVertices_def)
qed

theorem render_draws_each_run_witness:
  "drawingHistory (run [Clicked click0, Clicked click0, Clicked click0, ModeChanged LINES,
       Clicked click0, Clicked click0, Clicked click0, Clicked click0] (init POINTS red))
     = map (case_prod Run) [(POINTS, 3), (LINES, 4)]
   \<and> glCalls (render (run [Clicked click0, Clicked click0, Clicked click0, ModeChanged LINES,
       Clicked click0, Clicked click0, Clicked click0, Clicked click0] (init POINTS red)))
     = glCalls (run [Clicked click0, Clicked click0, Clicked click0, ModeChanged LINES,
       Clicked click0, Clicked click0, Clicked click0, Clicked click0] (init POINTS red))
       @ [Clear, DrawArrays (Some POINTS) (N 0) (Some 3), DrawArrays (Some LINES) (N 3) (Some 4)]"
proof -
  have i: "drawingHistory (init POINTS red) = []" "drawingMode (init POINTS red) = POINTS"
    by (simp_all add: init_def render_eq)
  have h: "drawingHistory (run [Clicked click0, Clicked click0, Clicked click0, ModeChanged LINES,
       Clicked click0, Clicked click0, Clicked click0, Clicked click0] (init POINTS red))
     = map (case_prod Run) [(POINTS, 3), (LINES, 4)]"
    by (simp add: run_def changeMode_def addVertex_eq i recordVertex_cases)
  show ?thesis
    using h render_draws_each_run
            [of "run [Clicked click0, Clicked click0, Clicked click0, ModeChanged LINES,
                 Clicked click0, Clicked click0, Clicked click0, Clicked click0]
                 (init POINTS red)" "[(POINTS, 3), (LINES, 4)]"]
    by simp
qed

lemma render_pow:
  "drawingHistory ((render ^^ n) s) = drawingHistory s
   \<and> posBuffer ((render ^^ n) s) = posBuffer s
   \<and> colorBuffer ((render ^^ n) s) = colorBuffer s
   \<and> currentCoordByteOffset ((render ^^ n) s) = currentCoordByteOffset s
   \<and> currentColorByteOffset ((render ^^ n) s) = currentColorByteOffset s
   \<and> drawingMode ((render ^^ n) s) = drawingMode s
   \<and> drawingColor ((render ^^ n) s) = drawingColor s"
  by (induction n) (simp_all add: render_eq)

lemma issued_eq: "issued s = Clear # drawCalls (N 0) (drawingHistory s)"
  by (simp add: issued_def render_eq)

text \<open>
  Claim C9. Any number of render passes leaves the history, both buffers and both byte
  offsets as they were, and a further pass adds to the log the same calls as a pass from
  the original state: the calls a pass issues depend on the history alone.
\<close>

theorem render_frame_idempotent:
  "drawingHistory ((render ^^ n) s) = drawingHistory s
   \<and> posBuffer ((render ^^ n) s) = posBuffer s
   \<and> colorBuffer ((render ^^ n) s) = colorBuffer s
   \<and> currentCoordByteOffset ((render ^^ n) s) = currentCoordByteOffset s
   \<and> currentColorByteOffset ((render ^^ n) s) = currentColorByteOffset s
   \<and> glCalls (render ((render ^^ n) s)) = glCalls ((render ^^ n) s) @ issued s
   \<and> issued ((render ^^ n) s) = issued s"
  using render_pow [of n s] by (simp add: issued_eq render_eq)

section \<open>From a click to a stored position\<close>

lemma writeCells_read:
  assumes "off + BYTES_PER_ELEMENT * length src \<le> bytes"
  shows "map (writeCells bytes buf off src) [0..<off div BYTES_PER_ELEMENT + length src]
           = map buf [0..<off div BYTES_PER_ELEMENT] @ src"
proof (rule nth_equalityI)
  show "length (map (writeCells bytes buf off src) [0..<off div BYTES_PER_ELEMENT + length src])
          = length (map buf [0..<off div BYTES_PER_ELEMENT] @ src)"
    by simp
next
  fix i
  assume "i < length (map (writeCells bytes buf off src) [0..<off div BYTES_PER_ELEMENT + length src])"
  then have i: "i < off div BYTES_PER_ELEMENT + length src" by simp
  then show "map (writeCells bytes buf off src) [0..<off div BYTES_PER_ELEMENT + length src] ! i
          = (map buf [0..<off div BYTES_PER_ELEMENT] @ src) ! i"
    using assms by (auto simp add: writeCells_def nth_append)
qed

lemma toFloat32_numberValue: "toFloat32 (numberValue v) = fround v"
  by (cases v) (simp_all add: toFloat32_def)

lemma from_numbers: "Float32Array_from (map numberValue vs) = map fround vs"
  by (simp add: Float32Array_from_def toFloat32_numberValue)

lemma clipCoords_length: "length (clipCoords e) = 2"
  by (simp add: clipCoords_def Let_def)

lemma positions_addVertex:
  assumes "currentCoordByteOffset s + 2 * BYTES_PER_ELEMENT \<le> posBufferBytes"
  shows "positions (addVertex e s) = positions s @ map fround (clipCoords e)"
proof -
  have d: "(currentCoordByteOffset s + 2 * BYTES_PER_ELEMENT) div BYTES_PER_ELEMENT
             = currentCoordByteOffset s div BYTES_PER_ELEMENT + length (map fround (clipCoords e))"
    by (simp add: BYTES_PER_ELEMENT_def clipCoords_length)
  have "currentCoordByteOffset s + BYTES_PER_ELEMENT * length (map fround (clipCoords e))
          \<le> posBufferBytes"
    using assms by (simp add: clipCoords_length mult.commute)
  from writeCells_read [OF this, of "posBuffer s"] show ?thesis
    by (simp add: positions_def addVertex_eq d from_numbers del: length_map)
qed

lemma clipCoords_click0:
  "map fround (clipCoords click0) = [Fin (- (11744051 / 16777216)), Fin (13421773 / 67108864)]"
proof -
  have "round64 (2 * 30) = Fin 60" using round64_of_int [of 60] by simp
  moreover have "round64 (2 * 40) = Fin 80" using round64_of_int [of 80] by simp
  moreover have "(60::real) / 200 = 3 / 10" "(80::real) / 100 = 4 / 5" by simp_all
  ultimately show ?thesis
    by (simp add: clipCoords_def click0_def Let_def r64_3_10 r64_m7_10 r32_m7_10 r64_4_5
        r64_1_5 r32_1_5)
qed







section \<open>Saving and loading\<close>

lemma readCells_fits:
  "n \<le> bytes \<Longrightarrow>
   readCells bytes buf (replicate (n div BYTES_PER_ELEMENT) z) = map buf [0..<n div BYTES_PER_ELEMENT]"
proof -
  assume "n \<le> bytes"
  moreover have "BYTES_PER_ELEMENT * (n div BYTES_PER_ELEMENT) \<le> n" by simp
  ultimately have "\<not> bytes < BYTES_PER_ELEMENT * (n div BYTES_PER_ELEMENT)" by linarith
  then show ?thesis by (simp add: readCells_def)
qed

lemma downloadDrawing_history:
  "drawingHistory (fst (downloadDrawing s)) =
     drawingHistory s @ [Float32Array (getBufferSubData (newFloat32Array (currentCoordByteOffset s))
                           (bindBuffer (Some PosBuffer) s)),
                         Float32Array (getBufferSubData (newFloat32Array (currentColorByteOffset s))
                           (bindBuffer (Some ColorBuffer) s))]"
  by (simp add: downloadDrawing_def Let_def bindBuffer_def getBufferSubData_def)

lemma downloadDrawing_eq:
  assumes "currentCoordByteOffset s \<le> posBufferBytes"
    and "currentColorByteOffset s \<le> colorBufferBytes"
  shows "downloadDrawing s =
     (s\<lparr>drawingHistory := drawingHistory s @ [Float32Array (positions s), Float32Array (colors s)],
        arrayBufferBinding := None\<rparr>,
      JSON_stringify (drawingHistory s @ [Float32Array (positions s), Float32Array (colors s)]))"
  using assms
  by (simp add: downloadDrawing_def newFloat32Array_def bindBuffer_def getBufferSubData_def
      readCells_fits positions_def colors_def Let_def)

lemma pop_snoc: "pop (h @ [e]) = (Some e, h)"
  by (simp add: pop_def)

lemma uploadDrawing_eq:
  "uploadDrawing (doc @ [JObject ps, JObject cs]) s =
     Inr (render (s\<lparr>drawingHistory := JSON_parse doc,
                    posBuffer := writeCells posBufferBytes (posBuffer s) 0 (Float32Array_from ps),
                    arrayBufferBinding := Some ColorBuffer,
                    colorBuffer := writeCells colorBufferBytes (colorBuffer s) 0 (Float32Array_from cs),
                    currentCoordByteOffset := length ps * BYTES_PER_ELEMENT,
                    currentColorByteOffset := length cs * BYTES_PER_ELEMENT\<rparr>))"
proof -
  have p1: "pop (JSON_parse (doc @ [JObject ps, JObject cs])) = (Some (Object cs), JSON_parse doc @ [Object ps])"
    using pop_snoc [of "JSON_parse doc @ [Object ps]" "Object cs"] by (simp add: JSON_parse_def)
  show ?thesis
    by (simp add: uploadDrawing_def p1 pop_snoc Let_def bindBuffer_def bufferSubData_def)
qed

lemma writeCells_read0:
  assumes "BYTES_PER_ELEMENT * length src \<le> bytes"
  shows "map (writeCells bytes buf 0 src) [0..<length src] = src"
  using writeCells_read [of 0 src bytes buf] assms by simp




lemma run_snoc: "run (evs @ [ev]) s = handle ev (run evs s)"
  by (simp add: run_def)

lemma isRun_recordVertex: "list_all isRun h \<Longrightarrow> list_all isRun (recordVertex m h)"
proof (cases "h \<noteq> [] \<and> mode (last h) = Some m")
  case True
  assume h: "list_all isRun h"
  from True obtain n where n: "last h = Run m n" using mode_Some by blast
  from True have "h = butlast h @ [last h]" by simp
  with h have "list_all isRun (butlast h)" by (metis list_all_append)
  with True n show ?thesis by (simp add: recordVertex_cases)
next
  case False
  assume "list_all isRun h"
  with False show ?thesis by (auto simp add: recordVertex_cases)
qed

lemma isSingle_fround: "isSingle (fround v)"
proof (cases v)
  case (Fin r)
  show ?thesis
  proof (cases "round32 r")
    case (Fin y)
    from round32_idem [OF this] Fin \<open>v = Fin r\<close> show ?thesis by (simp add: isSingle_def)
  next
    case NonFinite
    with \<open>v = Fin r\<close> show ?thesis by (simp add: isSingle_def)
  qed
next
  case NonFinite
  then show ?thesis by (simp add: isSingle_def)
qed

lemma isSingle_writeCells:
  "(\<forall>i. isSingle (buf i)) \<Longrightarrow> isSingle (writeCells bytes buf off (map fround src) i)"
  by (auto simp add: writeCells_def isSingle_fround)

lemma reached_init: "reached 0 (init m c)"
  by (simp add: reached_def init_def render_eq isSingle_def)

lemma reached_handle:
  assumes "reached n s"
  shows "reached (n + (if isClick ev then 1 else 0)) (handle ev s)"
proof (cases ev)
  case (ModeChanged m)
  with assms show ?thesis by (simp add: reached_def changeMode_def)
next
  case (ColorChanged c)
  with assms show ?thesis by (simp add: reached_def changeColor_def)
next
  case (Clicked e)
  show ?thesis
    using assms Clicked
    by (simp add: reached_def addVertex_eq isRun_recordVertex from_numbers isSingle_writeCells)
qed

lemma reached_run: "reached n s \<Longrightarrow> reached (n + clicks evs) (run evs s)"
proof (induction evs rule: rev_induct)
  case Nil
  then show ?case by (simp add: run_def clicks_def)
next
  case (snoc ev evs)
  then have "reached (n + clicks evs) (run evs s)" by simp
  from reached_handle [OF this, of ev] show ?case
    by (cases "isClick ev") (simp_all add: run_snoc clicks_def add.assoc)
qed


lemma colors_addVertex:
  assumes "currentColorByteOffset s + 3 * BYTES_PER_ELEMENT \<le> colorBufferBytes"
  shows "colors (addVertex e s)
           = colors s @ map fround (case drawingColor s of (r, g, b) \<Rightarrow> [r, g, b])"
proof -
  obtain r g b where c: "drawingColor s = (r, g, b)" by (cases "drawingColor s")
  have d: "(currentColorByteOffset s + 3 * BYTES_PER_ELEMENT) div BYTES_PER_ELEMENT
             = currentColorByteOffset s div BYTES_PER_ELEMENT + length (map fround [r, g, b])"
    by (simp add: BYTES_PER_ELEMENT_def)
  have "currentColorByteOffset s + BYTES_PER_ELEMENT * length (map fround [r, g, b])
          \<le> colorBufferBytes"
    using assms by (simp add: mult.commute)
  moreover have "Float32Array_from [numberValue r, numberValue g, numberValue b]
      = [fround r, fround g, fround b]"
    using from_numbers [of "[r, g, b]"] by simp
  ultimately show ?thesis
    using writeCells_read [of "currentColorByteOffset s" "map fround [r, g, b]" colorBufferBytes
        "colorBuffer s"]
    by (simp add: colors_def addVertex_eq d c del: upt_Suc)
qed

lemma init_facts:
  "drawingHistory (init m c) = []" "drawingMode (init m c) = m" "drawingColor (init m c) = c"
  "currentCoordByteOffset (init m c) = 0" "currentColorByteOffset (init m c) = 0"
  "positions (init m c) = []" "colors (init m c) = []"
  by (simp_all add: init_def render_eq positions_def colors_def)

lemma one_click:
  "drawingHistory (addVertex e (init m c)) = [Run m 1]"
  "currentCoordByteOffset (addVertex e (init m c)) = 8"
  "currentColorByteOffset (addVertex e (init m c)) = 12"
  "drawingMode (addVertex e (init m c)) = m"
  "positions (addVertex e (init m c)) = map fround (clipCoords e)"
  "colors (addVertex e (init m c)) = map fround (case c of (r, g, b) \<Rightarrow> [r, g, b])"
proof -
  show "drawingHistory (addVertex e (init m c)) = [Run m 1]"
    by (simp add: addVertex_eq init_facts recordVertex_cases)
  show "currentCoordByteOffset (addVertex e (init m c)) = 8"
    "currentColorByteOffset (addVertex e (init m c)) = 12"
    "drawingMode (addVertex e (init m c)) = m"
    by (simp_all add: addVertex_eq init_facts BYTES_PER_ELEMENT_def)
  have "positions (addVertex e (init m c)) = positions (init m c) @ map fround (clipCoords e)"
    by (rule positions_addVertex)
      (simp add: init_facts posBufferBytes_def BYTES_PER_ELEMENT_def)
  then show "positions (addVertex e (init m c)) = map fround (clipCoords e)"
    by (simp add: init_facts)
  have "colors (addVertex e (init m c)) = colors (init m c)
          @ map fround (case drawingColor (init m c) of (r, g, b) \<Rightarrow> [r, g, b])"
    by (rule colors_addVertex)
      (simp add: init_facts colorBufferBytes_def BYTES_PER_ELEMENT_def)
  then show "colors (addVertex e (init m c)) = map fround (case c of (r, g, b) \<Rightarrow> [r, g, b])"
    by (simp add: init_facts)
qed

lemma oneVertex_facts:
  "drawingHistory oneVertex = [Run POINTS 1]"
  "currentCoordByteOffset oneVertex = 8" "currentColorByteOffset oneVertex = 12"
  "positions oneVertex = [Fin (- (11744051 / 16777216)), Fin (13421773 / 67108864)]"
  "colors oneVertex = [Fin 1, Fin 0, Fin 0]"
  "drawingMode oneVertex = POINTS"
proof -
  have o: "oneVertex = addVertex click0 (init POINTS red)"
    by (simp add: oneVertex_def run_def)
  show "drawingHistory oneVertex = [Run POINTS 1]"
    "currentCoordByteOffset oneVertex = 8" "currentColorByteOffset oneVertex = 12"
    "positions oneVertex = [Fin (- (11744051 / 16777216)), Fin (13421773 / 67108864)]"
    "colors oneVertex = [Fin 1, Fin 0, Fin 0]"
    "drawingMode oneVertex = POINTS"
    by (simp_all add: o one_click clipCoords_click0 red_def)
qed





section \<open>The capacity boundary\<close>

lemma clicks_replicate: "clicks (replicate n (Clicked e)) = n"
  by (simp add: clicks_def)

lemma run_replicate_clicks:
  "drawingMode (run (replicate n (Clicked e)) (init m c)) = m
   \<and> drawingHistory (run (replicate n (Clicked e)) (init m c)) = (if n = 0 then [] else [Run m n])"
proof (induction n)
  case 0
  show ?case by (simp add: run_def init_facts)
next
  case (Suc n)
  have "run (replicate (Suc n) (Clicked e)) (init m c)
          = addVertex e (run (replicate n (Clicked e)) (init m c))"
    using run_snoc [of "replicate n (Clicked e)" "Clicked e" "init m c"]
    by (simp add: replicate_append_same)
  with Suc show ?case by (simp add: addVertex_eq recordVertex_cases)
qed

lemma full_facts:
  "currentCoordByteOffset full = 2 * BYTES_PER_ELEMENT * MAX_VERTICES"
  "currentColorByteOffset full = 3 * BYTES_PER_ELEMENT * MAX_VERTICES"
  "drawingHistory full = [Run POINTS MAX_VERTICES]"
  "drawingMode full = POINTS"
proof -
  have "reached (0 + clicks (replicate MAX_VERTICES (Clicked click0))) full"
    unfolding full_def by (rule reached_run [OF reached_init])
  then have r: "reached MAX_VERTICES full" by (simp add: clicks_replicate)
  then show "currentCoordByteOffset full = 2 * BYTES_PER_ELEMENT * MAX_VERTICES"
    "currentColorByteOffset full = 3 * BYTES_PER_ELEMENT * MAX_VERTICES"
    by (simp_all add: reached_def)
  show "drawingHistory full = [Run POINTS MAX_VERTICES]" "drawingMode full = POINTS"
    using run_replicate_clicks [of MAX_VERTICES click0 POINTS red]
    by (simp_all add: full_def MAX_VERTICES_def)
qed

text \<open>
  Claim C4, as stated, fails. After \<open>MAX_VERTICES\<close> clicks the vertex count is
  \<open>MAX_VERTICES\<close>; one more click is handled like any other: the vertex count becomes
  \<open>MAX_VERTICES + 1\<close> and the run record grows, so the state is not what it was.
\<close>

theorem capacity_not_enforced:
  "vertexCount full = MAX_VERTICES
   \<and> vertexCount (addVertex click0 full) = MAX_VERTICES + 1
   \<and> vertexCount (addVertex click0 full) \<noteq> MAX_VERTICES
   \<and> drawingHistory full = [Run POINTS MAX_VERTICES]
   \<and> drawingHistory (addVertex click0 full) = [Run POINTS (MAX_VERTICES + 1)]
   \<and> drawingHistory (addVertex click0 full) \<noteq> drawingHistory full"
  by (simp add: vertexCount_def addVertex_eq full_facts recordVertex_cases BYTES_PER_ELEMENT_def)

text \<open>
  Claim C4, amended. When both byte offsets stand at \<open>MAX_VERTICES\<close> vertices, a further
  click raises no error: the contents of the position and colour buffers stay as they
  are (the write past the end is discarded), while the history records the vertex, its
  total growing by one, both byte offsets advance by one vertex (8 and 12 bytes), and the
  vertex count becomes \<open>MAX_VERTICES + 1\<close>.
\<close>

theorem append_at_capacity:
  assumes "currentCoordByteOffset s = 2 * BYTES_PER_ELEMENT * MAX_VERTICES"
    and "currentColorByteOffset s = 3 * BYTES_PER_ELEMENT * MAX_VERTICES"
  shows "posBuffer (addVertex e s) = posBuffer s
    \<and> colorBuffer (addVertex e s) = colorBuffer s
    \<and> currentCoordByteOffset (addVertex e s) = currentCoordByteOffset s + 2 * BYTES_PER_ELEMENT
    \<and> currentColorByteOffset (addVertex e s) = currentColorByteOffset s + 3 * BYTES_PER_ELEMENT
    \<and> vertexCount s = MAX_VERTICES
    \<and> vertexCount (addVertex e s) = MAX_VERTICES + 1
    \<and> drawingHistory (addVertex e s) = recordVertex (drawingMode s) (drawingHistory s)
    \<and> totalVertices (drawingHistory (addVertex e s))
        = jsplus (totalVertices (drawingHistory s)) (Some 1)"
proof -
  obtain r g b where c: "drawingColor s = (r, g, b)" by (cases "drawingColor s")
  have l: "length (Float32Array_from (map numberValue (clipCoords e))) = 2"
    "length (Float32Array_from [numberValue r, numberValue g, numberValue b]) = 3"
    by (simp_all add: Float32Array_from_def clipCoords_length)
  show ?thesis
    using assms l
    by (simp add: addVertex_eq writeCells_def c vertexCount_def
        totalVertices_recordVertex posBufferBytes_def colorBufferBytes_def MAX_VERTICES_def
        BYTES_PER_ELEMENT_def)
qed

theorem append_at_capacity_witness:
  "currentCoordByteOffset full = 2 * BYTES_PER_ELEMENT * MAX_VERTICES
   \<and> currentColorByteOffset full = 3 * BYTES_PER_ELEMENT * MAX_VERTICES
   \<and> posBuffer (addVertex click0 full) = posBuffer full
   \<and> colorBuffer (addVertex click0 full) = colorBuffer full
   \<and> currentCoordByteOffset (addVertex click0 full) = 800008
   \<and> currentColorByteOffset (addVertex click0 full) = 1200012
   \<and> vertexCount (addVertex click0 full) = 100001
   \<and> totalVertices (drawingHistory (addVertex click0 full)) = N 100001"
proof -
  show ?thesis
    using append_at_capacity [OF full_facts(1) full_facts(2), of click0]
    by (simp add: full_facts totalVertices_def recordVertex_cases MAX_VERTICES_def
        BYTES_PER_ELEMENT_def)
qed

section \<open>Loading a malformed snapshot\<close>

lemma round32_half: "round32 (1 / 2) = Fin (1 / 2)"
  unfolding round32_def
  by (rule roundTo_representable [where m = 1 and k = "- 1"]) simp_all

text \<open>
  Claim C5, as stated, fails. Loading the snapshot \<open>badSnapshot\<close>, whose position array has
  odd length, into the state of one click does not fail, and it changes the state: the
  coordinate offset goes from 8 to 4 and the stored positions are replaced.
\<close>

theorem malformed_snapshot_accepted:
  "(case uploadDrawing badSnapshot oneVertex of
      Inl err \<Rightarrow> False
    | Inr s' \<Rightarrow>
        odd (length [JNum (1 / 2)])
        \<and> currentCoordByteOffset oneVertex = 8 \<and> currentCoordByteOffset s' = 4
        \<and> positions oneVertex = [Fin (- (11744051 / 16777216)), Fin (13421773 / 67108864)]
        \<and> positions s' = [Fin (1 / 2)])"
proof -
  have b: "badSnapshot = [JRun POINTS 1] @ [JObject [JNum (1 / 2)], JObject [JNum 1, JNum 0, JNum 0]]"
    by (simp add: badSnapshot_def)
  have w: "map (writeCells posBufferBytes (posBuffer oneVertex) 0 [Fin (1 / 2)]) [0..<length [Fin (1 / 2)]]
             = [Fin (1 / 2)]"
    by (rule writeCells_read0) (simp add: posBufferBytes_def BYTES_PER_ELEMENT_def)
  show ?thesis
    using w unfolding b uploadDrawing_eq
    by (simp add: render_eq oneVertex_facts positions_def [of "_\<lparr>glCalls := _\<rparr>"]
        Float32Array_from_def toFloat32_def round32_half BYTES_PER_ELEMENT_def)
qed

text \<open>
  Claim C5, amended. Take a snapshot whose entries are run records or objects of numbers
  and nulls and whose last two entries are such objects \<open>ps\<close> and \<open>cs\<close>, with \<open>ps\<close> of odd
  length or with \<open>length ps / 2\<close> different from \<open>length cs / 3\<close>. It is loaded without
  validation: the load does not fail, the history becomes the entries before the two
  arrays, the byte offsets become 4 times the lengths of \<open>ps\<close> and \<open>cs\<close>, and each array
  that fits its buffer becomes, converted to single precision, the stored positions or
  colours.
\<close>

theorem snapshot_loaded_unvalidated:
  assumes "odd (length ps) \<or> 3 * length ps \<noteq> 2 * length cs"
  shows "case uploadDrawing (doc @ [JObject ps, JObject cs]) s of
           Inl err \<Rightarrow> False
         | Inr s' \<Rightarrow>
             drawingHistory s' = JSON_parse doc
             \<and> currentCoordByteOffset s' = length ps * BYTES_PER_ELEMENT
             \<and> currentColorByteOffset s' = length cs * BYTES_PER_ELEMENT
             \<and> (BYTES_PER_ELEMENT * length ps \<le> posBufferBytes \<longrightarrow>
                  positions s' = Float32Array_from ps)
             \<and> (BYTES_PER_ELEMENT * length cs \<le> colorBufferBytes \<longrightarrow>
                  colors s' = Float32Array_from cs)"
proof -
  have lp: "length (Float32Array_from ps) = length ps"
    and lc: "length (Float32Array_from cs) = length cs"
    by (simp_all add: Float32Array_from_def)
  have wp: "BYTES_PER_ELEMENT * length ps \<le> posBufferBytes \<Longrightarrow>
      map (writeCells posBufferBytes (posBuffer s) 0 (Float32Array_from ps)) [0..<length ps]
        = Float32Array_from ps"
    using writeCells_read0 [of "Float32Array_from ps" posBufferBytes "posBuffer s"]
    by (simp add: lp)
  have wc: "BYTES_PER_ELEMENT * length cs \<le> colorBufferBytes \<Longrightarrow>
      map (writeCells colorBufferBytes (colorBuffer s) 0 (Float32Array_from cs)) [0..<length cs]
        = Float32Array_from cs"
    using writeCells_read0 [of "Float32Array_from cs" colorBufferBytes "colorBuffer s"]
    by (simp add: lc)
  show ?thesis
    using wp wc
    by (simp add: uploadDrawing_eq render_eq positions_def [of "_\<lparr>glCalls := _\<rparr>"]
        colors_def [of "_\<lparr>glCalls := _\<rparr>"] BYTES_PER_ELEMENT_def)
qed

theorem snapshot_loaded_unvalidated_witness:
  "odd (length [JNum (1 / 2)])
   \<and> (case uploadDrawing ([JRun POINTS 1] @ [JObject [JNum (1 / 2)], JObject [JNum 1, JNum 0, JNum 0]])
              oneVertex of
         Inl err \<Rightarrow> False
       | Inr s' \<Rightarrow>
           drawingHistory s' = [Run POINTS 1]
           \<and> currentCoordByteOffset s' = 4
           \<and> currentColorByteOffset s' = 12
           \<and> positions s' = [Fin (1 / 2)]
           \<and> colors s' = [Fin 1, Fin 0, Fin 0])"
proof -
  have o: "odd (length [JNum (1 / 2)])
      \<or> 3 * length [JNum (1 / 2)] \<noteq> 2 * length [JNum 1, JNum 0, JNum 0]"
    by simp
  note th = snapshot_loaded_unvalidated [OF o, of "[JRun POINTS 1]" oneVertex]
  show ?thesis
  proof (cases "uploadDrawing ([JRun POINTS 1] @ [JObject [JNum (1 / 2)], JObject [JNum 1, JNum 0, JNum 0]])
              oneVertex")
    case (Inl e)
    with th show ?thesis by simp
  next
    case (Inr s')
    with th show ?thesis
      by (simp add: JSON_parse_def Float32Array_from_def toFloat32_def round32_half
          BYTES_PER_ELEMENT_def posBufferBytes_def colorBufferBytes_def)
  qed
qed

section \<open>What saving leaves behind\<close>

lemma oneVertex_fits:
  "currentCoordByteOffset oneVertex \<le> posBufferBytes"
  "currentColorByteOffset oneVertex \<le> colorBufferBytes"
  by (simp_all add: oneVertex_facts BYTES_PER_ELEMENT_def posBufferBytes_def
      colorBufferBytes_def)

text \<open>
  Claim C10 does not hold of the code. Saving the drawing of one click leaves the two
  exported arrays at the end of \<open>drawingHistory\<close>: the next render pass issues a draw call
  for each of them, with no mode and no count, the second from offset \<^verbatim>\<open>NaN\<close>; the next
  click starts a new run record behind them, which is drawn from offset \<^verbatim>\<open>NaN\<close> too.
\<close>

theorem save_leaves_arrays_in_history:
  "(case downloadDrawing oneVertex of
      (s', snapshot) \<Rightarrow>
        drawingHistory oneVertex = [Run POINTS 1]
        \<and> drawingHistory s' =
            [Run POINTS 1,
             Float32Array [Fin (- (11744051 / 16777216)), Fin (13421773 / 67108864)],
             Float32Array [Fin 1, Fin 0, Fin 0]]
        \<and> drawingHistory s' \<noteq> drawingHistory oneVertex
        \<and> issued s' =
            [Clear, DrawArrays (Some POINTS) (N 0) (Some 1), DrawArrays None (N 1) None,
             DrawArrays None NaN None]
        \<and> drawingHistory (addVertex click0 s') = drawingHistory s' @ [Run POINTS 1]
        \<and> issued (addVertex click0 s') = issued s' @ [DrawArrays (Some POINTS) NaN (Some 1)])"
  by (simp add: downloadDrawing_eq [OF oneVertex_fits] oneVertex_facts issued_eq addVertex_eq
      recordVertex_cases)

section \<open>The layout of a snapshot\<close>

lemma first_save_layout:
  assumes "drawingHistory s = map (case_prod Run) rs"
    and "currentCoordByteOffset s \<le> posBufferBytes"
    and "currentColorByteOffset s \<le> colorBufferBytes"
  shows "snd (downloadDrawing s) =
           map (case_prod JRun) rs
           @ [JObject (map stringifyNumber (positions s)), JObject (map stringifyNumber (colors s))]"
proof -
  have m: "map stringifyEntry (map (case_prod Run) rs) = map (case_prod JRun) rs"
    by (induction rs) auto
  show ?thesis
    by (simp add: downloadDrawing_eq assms JSON_stringify_def m del: map_map)
qed

text \<open>
  Claim C8 does not hold of the code. The drawing of one click has one run. Its first
  save writes the three entries the claim describes. The arrays of that save stay in
  \<open>drawingHistory\<close>, so a second save of the same drawing writes five entries: the run
  record, the two arrays of the first save, and the two arrays again.
\<close>

theorem second_save_repeats_arrays:
  "snd (downloadDrawing oneVertex) =
     [JRun POINTS 1,
      JObject [JNum (- (11744051 / 16777216)), JNum (13421773 / 67108864)],
      JObject [JNum 1, JNum 0, JNum 0]]
   \<and> snd (downloadDrawing (fst (downloadDrawing oneVertex))) =
     [JRun POINTS 1,
      JObject [JNum (- (11744051 / 16777216)), JNum (13421773 / 67108864)],
      JObject [JNum 1, JNum 0, JNum 0],
      JObject [JNum (- (11744051 / 16777216)), JNum (13421773 / 67108864)],
      JObject [JNum 1, JNum 0, JNum 0]]
   \<and> length (snd (downloadDrawing (fst (downloadDrawing oneVertex)))) \<noteq> 1 + 2"
proof -
  let ?s1 = "fst (downloadDrawing oneVertex)"
  have s1: "?s1 = oneVertex\<lparr>drawingHistory :=
        drawingHistory oneVertex @ [Float32Array (positions oneVertex), Float32Array (colors oneVertex)],
        arrayBufferBinding := None\<rparr>"
    by (simp add: downloadDrawing_eq [OF oneVertex_fits])
  have f: "currentCoordByteOffset ?s1 \<le> posBufferBytes"
    "currentColorByteOffset ?s1 \<le> colorBufferBytes"
    "positions ?s1 = positions oneVertex" "colors ?s1 = colors oneVertex"
    using oneVertex_fits by (simp_all add: s1 positions_def colors_def)
  show ?thesis
    by (simp add: downloadDrawing_eq [OF f(1) f(2)] f(3) f(4))
      (simp add: s1 downloadDrawing_eq [OF oneVertex_fits] oneVertex_facts JSON_stringify_def)
qed

end
